theory Spec2Isabelle
  imports Main "HOL-Library.Word"
begin

unbundle bit_operations_syntax

section \<open>Data model\<close>

text \<open>
  The embedding follows \<^verbatim>\<open>src/blake3.ts\<close> (the scalar implementation) and the
  function \<^verbatim>\<open>hashWasmSimd\<close> of \<^verbatim>\<open>src/blake3-workers.ts\<close>.
  A \<^verbatim>\<open>Uint8Array\<close> is a list of bytes, a \<^verbatim>\<open>Uint32Array\<close> a list of 32-bit words.
  JavaScript's \<^verbatim>\<open>x | 0\<close>, \<^verbatim>\<open>^\<close>, \<^verbatim>\<open>>>>\<close> and \<^verbatim>\<open><<\<close> work on the 32-bit pattern of
  their operands, and a store into a \<^verbatim>\<open>Uint32Array\<close> keeps that pattern, so a state
  word is a \<open>32 word\<close>: \<open>+\<close> wraps, \<open>drop_bit\<close> is \<^verbatim>\<open>>>>\<close>, \<open>push_bit\<close> is \<^verbatim>\<open><<\<close>.
  Lengths, offsets and counters are JavaScript numbers holding non-negative integers:
  they are \<open>nat\<close>.
\<close>

type_synonym u8 = "8 word"
type_synonym u32 = "32 word"
type_synonym vars16 = "u32 \<times> u32 \<times> u32 \<times> u32 \<times> u32 \<times> u32 \<times> u32 \<times> u32 \<times>
                       u32 \<times> u32 \<times> u32 \<times> u32 \<times> u32 \<times> u32 \<times> u32 \<times> u32"

text \<open>The only exception the source raises itself is \<^verbatim>\<open>Error('Key must be 32 bytes')\<close>;
  reading element 0 of an empty stack would be a \<^verbatim>\<open>TypeError\<close>.\<close>

datatype error = KeyMustBe32Bytes | TypeError

text \<open>What the fast path of \<^verbatim>\<open>readBlockFastLE\<close> looks at besides the bytes: the byte
  order of the host and where the input view starts in its buffer.\<close>

record layout =
  IS_LITTLE_ENDIAN :: bool
  byteOffset :: nat

definition IV :: "u32 list" where
  "IV = [0x6a09e667, 0xbb67ae85, 0x3c6ef372, 0xa54ff53a,
         0x510e527f, 0x9b05688c, 0x1f83d9ab, 0x5be0cd19]"

definition BLOCK_LEN :: nat where "BLOCK_LEN = 64"
definition CHUNK_LEN :: nat where "CHUNK_LEN = 1024"

definition CHUNK_START :: u32 where "CHUNK_START = 1"
definition CHUNK_END :: u32 where "CHUNK_END = 2"
definition PARENT :: u32 where "PARENT = 4"
definition ROOT :: u32 where "ROOT = 8"
definition KEYED_HASH :: u32 where "KEYED_HASH = 16"
definition DERIVE_KEY_CONTEXT :: u32 where "DERIVE_KEY_CONTEXT = 32"
definition DERIVE_KEY_MATERIAL :: u32 where "DERIVE_KEY_MATERIAL = 64"

section \<open>The compression function\<close>

text \<open>\<^verbatim>\<open>a[i] | 0\<close> on a typed array: the element, or 0 past the end (\<^verbatim>\<open>undefined | 0\<close>).\<close>

definition rd :: "u32 list \<Rightarrow> nat \<Rightarrow> u32" where
  "rd a i = (if i < length a then a ! i else 0)"

text \<open>One pass of the loop body of \<^verbatim>\<open>compress\<close> (lines 56 to 95): the column mixing and
  the diagonal mixing, statement by statement on the sixteen state locals.\<close>

definition mix :: "vars16 \<Rightarrow> vars16 \<Rightarrow> vars16" where
  "mix = (\<lambda>(s_0, s_1, s_2, s_3, s_4, s_5, s_6, s_7, s_8, s_9, s_10, s_11, s_12, s_13, s_14, s_15)
       (m_0, m_1, m_2, m_3, m_4, m_5, m_6, m_7, m_8, m_9, m_10, m_11, m_12, m_13, m_14, m_15).
    let s_0 = s_0 + s_4 + m_0; s_12 = s_12 XOR s_0; s_12 = drop_bit 16 s_12 OR push_bit 16 s_12;
         s_8 = s_8 + s_12; s_4 = s_4 XOR s_8; s_4 = drop_bit 12 s_4 OR push_bit 20 s_4;
         s_0 = s_0 + s_4 + m_1; s_12 = s_12 XOR s_0; s_12 = drop_bit 8 s_12 OR push_bit 24 s_12;
         s_8 = s_8 + s_12; s_4 = s_4 XOR s_8; s_4 = drop_bit 7 s_4 OR push_bit 25 s_4;

         s_1 = s_1 + s_5 + m_2; s_13 = s_13 XOR s_1; s_13 = drop_bit 16 s_13 OR push_bit 16 s_13;
         s_9 = s_9 + s_13; s_5 = s_5 XOR s_9; s_5 = drop_bit 12 s_5 OR push_bit 20 s_5;
         s_1 = s_1 + s_5 + m_3; s_13 = s_13 XOR s_1; s_13 = drop_bit 8 s_13 OR push_bit 24 s_13;
         s_9 = s_9 + s_13; s_5 = s_5 XOR s_9; s_5 = drop_bit 7 s_5 OR push_bit 25 s_5;

         s_2 = s_2 + s_6 + m_4; s_14 = s_14 XOR s_2; s_14 = drop_bit 16 s_14 OR push_bit 16 s_14;
         s_10 = s_10 + s_14; s_6 = s_6 XOR s_10; s_6 = drop_bit 12 s_6 OR push_bit 20 s_6;
         s_2 = s_2 + s_6 + m_5; s_14 = s_14 XOR s_2; s_14 = drop_bit 8 s_14 OR push_bit 24 s_14;
         s_10 = s_10 + s_14; s_6 = s_6 XOR s_10; s_6 = drop_bit 7 s_6 OR push_bit 25 s_6;

         s_3 = s_3 + s_7 + m_6; s_15 = s_15 XOR s_3; s_15 = drop_bit 16 s_15 OR push_bit 16 s_15;
         s_11 = s_11 + s_15; s_7 = s_7 XOR s_11; s_7 = drop_bit 12 s_7 OR push_bit 20 s_7;
         s_3 = s_3 + s_7 + m_7; s_15 = s_15 XOR s_3; s_15 = drop_bit 8 s_15 OR push_bit 24 s_15;
         s_11 = s_11 + s_15; s_7 = s_7 XOR s_11; s_7 = drop_bit 7 s_7 OR push_bit 25 s_7;

         s_0 = s_0 + s_5 + m_8; s_15 = s_15 XOR s_0; s_15 = drop_bit 16 s_15 OR push_bit 16 s_15;
         s_10 = s_10 + s_15; s_5 = s_5 XOR s_10; s_5 = drop_bit 12 s_5 OR push_bit 20 s_5;
         s_0 = s_0 + s_5 + m_9; s_15 = s_15 XOR s_0; s_15 = drop_bit 8 s_15 OR push_bit 24 s_15;
         s_10 = s_10 + s_15; s_5 = s_5 XOR s_10; s_5 = drop_bit 7 s_5 OR push_bit 25 s_5;

         s_1 = s_1 + s_6 + m_10; s_12 = s_12 XOR s_1; s_12 = drop_bit 16 s_12 OR push_bit 16 s_12;
         s_11 = s_11 + s_12; s_6 = s_6 XOR s_11; s_6 = drop_bit 12 s_6 OR push_bit 20 s_6;
         s_1 = s_1 + s_6 + m_11; s_12 = s_12 XOR s_1; s_12 = drop_bit 8 s_12 OR push_bit 24 s_12;
         s_11 = s_11 + s_12; s_6 = s_6 XOR s_11; s_6 = drop_bit 7 s_6 OR push_bit 25 s_6;

         s_2 = s_2 + s_7 + m_12; s_13 = s_13 XOR s_2; s_13 = drop_bit 16 s_13 OR push_bit 16 s_13;
         s_8 = s_8 + s_13; s_7 = s_7 XOR s_8; s_7 = drop_bit 12 s_7 OR push_bit 20 s_7;
         s_2 = s_2 + s_7 + m_13; s_13 = s_13 XOR s_2; s_13 = drop_bit 8 s_13 OR push_bit 24 s_13;
         s_8 = s_8 + s_13; s_7 = s_7 XOR s_8; s_7 = drop_bit 7 s_7 OR push_bit 25 s_7;

         s_3 = s_3 + s_4 + m_14; s_14 = s_14 XOR s_3; s_14 = drop_bit 16 s_14 OR push_bit 16 s_14;
         s_9 = s_9 + s_14; s_4 = s_4 XOR s_9; s_4 = drop_bit 12 s_4 OR push_bit 20 s_4;
         s_3 = s_3 + s_4 + m_15; s_14 = s_14 XOR s_3; s_14 = drop_bit 8 s_14 OR push_bit 24 s_14;
         s_9 = s_9 + s_14; s_4 = s_4 XOR s_9; s_4 = drop_bit 7 s_4 OR push_bit 25 s_4
     in (s_0, s_1, s_2, s_3, s_4, s_5, s_6, s_7, s_8, s_9, s_10, s_11, s_12, s_13, s_14, s_15))"

text \<open>The permutation of the message locals (lines 99 to 101), in the order of the
  assignments.\<close>

definition permute :: "vars16 \<Rightarrow> vars16" where
  "permute = (\<lambda>(m_0, m_1, m_2, m_3, m_4, m_5, m_6, m_7, m_8, m_9, m_10, m_11, m_12, m_13, m_14, m_15).
    let t0 = m_0; t1 = m_1;
         m_0 = m_2; m_2 = m_3; m_3 = m_10; m_10 = m_12; m_12 = m_9; m_9 = m_11; m_11 = m_5; m_5 = t0;
         m_1 = m_6; m_6 = m_4; m_4 = m_7; m_7 = m_13; m_13 = m_14; m_14 = m_15; m_15 = m_8; m_8 = t1
     in (m_0, m_1, m_2, m_3, m_4, m_5, m_6, m_7, m_8, m_9, m_10, m_11, m_12, m_13, m_14, m_15))"

text \<open>The loop \<^verbatim>\<open>for (let i = 0; i < 7; ++i)\<close>: the message is permuted after every
  pass but the last.\<close>

function rounds :: "nat \<Rightarrow> vars16 \<Rightarrow> vars16 \<Rightarrow> vars16" where
  "rounds i s m =
     (if i < 7 then rounds (i + 1) (mix s m) (if i < 6 then permute m else m) else s)"
  by pat_completeness auto
termination
  by (relation "measure (\<lambda>(i, s, m). 7 - i)") auto

definition compress :: "u32 list \<Rightarrow> u32 list \<Rightarrow> nat \<Rightarrow> nat \<Rightarrow> u32 \<Rightarrow> u32 list" where
  "compress cv m counter blockLen flags =
     (case rounds 0
        (rd cv 0, rd cv 1, rd cv 2, rd cv 3, rd cv 4, rd cv 5, rd cv 6, rd cv 7,
         0x6a09e667, 0xbb67ae85, 0x3c6ef372, 0xa54ff53a,
         of_nat counter, of_nat (counter div 0x100000000), of_nat blockLen, flags)
        (rd m 0, rd m 1, rd m 2, rd m 3, rd m 4, rd m 5, rd m 6, rd m 7,
         rd m 8, rd m 9, rd m 10, rd m 11, rd m 12, rd m 13, rd m 14, rd m 15) of
      (s_0, s_1, s_2, s_3, s_4, s_5, s_6, s_7, s_8, s_9, s_10, s_11, s_12, s_13, s_14, s_15) \<Rightarrow>
        [s_0 XOR s_8, s_1 XOR s_9, s_2 XOR s_10, s_3 XOR s_11,
         s_4 XOR s_12, s_5 XOR s_13, s_6 XOR s_14, s_7 XOR s_15])"

section \<open>Reading blocks and writing digests\<close>

text \<open>\<^verbatim>\<open>input[i] | (input[i+1] << 8) | (input[i+2] << 16) | (input[i+3] << 24)\<close>\<close>

definition le_word :: "u8 list \<Rightarrow> nat \<Rightarrow> u32" where
  "le_word input i =
     ucast (input ! i) OR push_bit 8 (ucast (input ! (i + 1))) OR
     push_bit 16 (ucast (input ! (i + 2))) OR push_bit 24 (ucast (input ! (i + 3)))"

text \<open>The first loop of \<^verbatim>\<open>readBlock\<close>, over whole words. A store past the end of a typed
  array is ignored, as a list update past the end is.\<close>

function read_words :: "u8 list \<Rightarrow> nat \<Rightarrow> u32 list \<Rightarrow> nat \<Rightarrow> nat \<Rightarrow> u32 list \<times> nat \<times> nat" where
  "read_words input end out wi i =
     (if i + 4 \<le> end then read_words input end (out[wi := le_word input i]) (wi + 1) (i + 4)
      else (out, wi, i))"
  by pat_completeness auto
termination
  by (relation "measure (\<lambda>(input, end, out, wi, i). end - i)") auto

text \<open>The second loop, over the bytes of a last partial word; \<^verbatim>\<open><<\<close> takes its shift
  count modulo 32.\<close>

function read_tail :: "u8 list \<Rightarrow> nat \<Rightarrow> u32 \<Rightarrow> nat \<Rightarrow> nat \<Rightarrow> u32" where
  "read_tail input end word shift i =
     (if i < end
      then read_tail input end (word OR push_bit (shift mod 32) (ucast (input ! i))) (shift + 8) (i + 1)
      else word)"
  by pat_completeness auto
termination
  by (relation "measure (\<lambda>(input, end, word, shift, i). end - i)") auto

text \<open>\<^verbatim>\<open>readBlock(input, offset, length, out)\<close>; the result is the new content of the
  sixteen-word buffer \<^verbatim>\<open>out\<close>.\<close>

definition readBlock :: "u8 list \<Rightarrow> nat \<Rightarrow> nat \<Rightarrow> u32 list" where
  "readBlock input offset len =
     (let out = replicate 16 0;
          end = min (offset + len) (length input)
      in case read_words input end out 0 offset of
           (out, wi, i) \<Rightarrow> if i < end then out[wi := read_tail input end 0 0 i] else out)"

text \<open>\<^verbatim>\<open>readBlockFastLE\<close>: \<open>None\<close> when it returns \<^verbatim>\<open>false\<close> and leaves the buffer alone,
  otherwise the sixteen words a \<^verbatim>\<open>Uint32Array\<close> view of the 64 bytes at \<^verbatim>\<open>offset\<close> holds
  on a little-endian host.\<close>

definition readBlockFastLE :: "layout \<Rightarrow> u8 list \<Rightarrow> nat \<Rightarrow> u32 list option" where
  "readBlockFastLE lay input offset =
     (let absoluteOffset = byteOffset lay + offset
      in if IS_LITTLE_ENDIAN lay \<and> absoluteOffset mod 4 = 0 \<and> offset + 64 \<le> length input
         then Some (map (\<lambda>w. le_word input (offset + 4 * w)) [0..<16])
         else None)"

text \<open>The choice between the two readers in \<^verbatim>\<open>hash\<close> and \<^verbatim>\<open>processChunk\<close>
  (lines 170 to 174 and 223 to 227).\<close>

definition load_block :: "layout \<Rightarrow> u8 list \<Rightarrow> nat \<Rightarrow> nat \<Rightarrow> u32 list" where
  "load_block lay input offset blockLen =
     (case (if blockLen = BLOCK_LEN then readBlockFastLE lay input offset else None) of
        Some blockWords \<Rightarrow> blockWords
      | None \<Rightarrow> readBlock input offset blockLen)"

text \<open>\<^verbatim>\<open>Math.ceil(a / b)\<close> for a positive \<open>b\<close>.\<close>

definition ceil_div :: "nat \<Rightarrow> nat \<Rightarrow> nat" where
  "ceil_div a b = (a + b - 1) div b"

text \<open>\<^verbatim>\<open>cvToBytes\<close>: first the body of its loop, then the loop over
  \<open>[0, min 8 (ceil (outputLen / 4)))\<close> on a buffer of \<open>outputLen\<close> zero bytes. A byte
  stored is the low byte of the shifted word; \<^verbatim>\<open>cv[i]\<close> past the end is \<^verbatim>\<open>undefined\<close>,
  whose bytes are 0.\<close>

definition cvToBytes_body :: "u32 list \<Rightarrow> nat \<Rightarrow> nat \<Rightarrow> u8 list \<Rightarrow> u8 list" where
  "cvToBytes_body cv outputLen i result =
     (let word = rd cv i; base = i * 4;
          result = (if base < outputLen then result[base := ucast (word AND 0xff)] else result);
          result = (if base + 1 < outputLen
                    then result[base + 1 := ucast (drop_bit 8 word AND 0xff)] else result);
          result = (if base + 2 < outputLen
                    then result[base + 2 := ucast (drop_bit 16 word AND 0xff)] else result);
          result = (if base + 3 < outputLen
                    then result[base + 3 := ucast (drop_bit 24 word AND 0xff)] else result)
      in result)"

definition cvToBytes :: "u32 list \<Rightarrow> nat \<Rightarrow> u8 list" where
  "cvToBytes cv outputLen =
     fold (cvToBytes_body cv outputLen) [0..<min 8 (ceil_div outputLen 4)] (replicate outputLen 0)"

section \<open>Chunks and the tree\<close>

text \<open>\<^verbatim>\<open>Math.ceil(len / BLOCK_LEN) || 1\<close>\<close>

definition block_count :: "nat \<Rightarrow> nat" where
  "block_count len = (let n = ceil_div len BLOCK_LEN in if n = 0 then 1 else n)"

text \<open>
  The block loop \<^verbatim>\<open>while (blocksRemaining > 0)\<close>. The source writes it out six times
  (in \<^verbatim>\<open>processChunk\<close>, in the single-chunk path of \<^verbatim>\<open>hash\<close>, twice in \<^verbatim>\<open>keyedHash\<close>,
  twice in \<^verbatim>\<open>deriveKey\<close>); the copies differ in how a block is read (\<open>load\<close>), in the
  length, counter and flags, in what the last block adds to its flags (\<open>lastFlags\<close>:
  \<^verbatim>\<open>CHUNK_END\<close> or \<^verbatim>\<open>CHUNK_END | ROOT\<close>) and in the initial chaining value. The state of
  the loop is \<open>pos\<close>, \<open>blocksRemaining\<close> and \<open>cv\<close>. The loop runs \<open>block_count len\<close> times,
  so \<open>len - pos\<close> is never negative.
\<close>

function block_loop ::
  "(nat \<Rightarrow> nat \<Rightarrow> u32 list) \<Rightarrow> nat \<Rightarrow> nat \<Rightarrow> u32 \<Rightarrow> u32 \<Rightarrow> nat \<Rightarrow> nat \<Rightarrow> u32 list \<Rightarrow> u32 list" where
  "block_loop load len counter flags lastFlags pos blocksRemaining cv =
     (if blocksRemaining > 0 then
        (let blockLen = min BLOCK_LEN (len - pos);
             isFirst = (pos = 0);
             isLast = (blocksRemaining = 1);
             blockFlags = flags;
             blockFlags = (if isFirst then blockFlags OR CHUNK_START else blockFlags);
             blockFlags = (if isLast then blockFlags OR lastFlags else blockFlags);
             blockWords = load pos blockLen;
             result = compress cv blockWords counter blockLen blockFlags
         in block_loop load len counter flags lastFlags (pos + BLOCK_LEN) (blocksRemaining - 1) result)
      else cv)"
  by pat_completeness auto
termination
  by (relation "measure (\<lambda>(load, len, counter, flags, lastFlags, pos, blocksRemaining, cv). blocksRemaining)")
     auto

definition processChunk :: "layout \<Rightarrow> u8 list \<Rightarrow> nat \<Rightarrow> nat \<Rightarrow> nat \<Rightarrow> u32 \<Rightarrow> u32 list" where
  "processChunk lay input chunkStart chunkLen chunkCounter flags =
     block_loop (\<lambda>pos blockLen. load_block lay input (chunkStart + pos) blockLen)
       chunkLen chunkCounter flags CHUNK_END 0 (block_count chunkLen) IV"

text \<open>\<^verbatim>\<open>dst.set(src, offset)\<close> on typed arrays, for a source that fits.\<close>

definition array_set :: "u32 list \<Rightarrow> u32 list \<Rightarrow> nat \<Rightarrow> u32 list" where
  "array_set dst src offset = take offset dst @ src @ drop (offset + length src) dst"

definition parent_block :: "u32 list \<Rightarrow> u32 list \<Rightarrow> u32 list" where
  "parent_block left right = array_set (array_set (replicate 16 0) left 0) right 8"

definition mergeParents :: "u32 list \<Rightarrow> u32 list \<Rightarrow> u32 \<Rightarrow> bool \<Rightarrow> u32 list" where
  "mergeParents left right flags isRoot =
     (let block = parent_block left right;
          parentFlags = flags OR PARENT;
          parentFlags = (if isRoot then parentFlags OR ROOT else parentFlags)
      in compress IV block 0 BLOCK_LEN parentFlags)"

text \<open>
  The stack \<^verbatim>\<open>cvStack\<close> is a list with its top at the head: \<^verbatim>\<open>push\<close> is \<open>#\<close>,
  \<^verbatim>\<open>pop\<close> takes the head, and \<^verbatim>\<open>cvStack[0]\<close>, the bottom, is \<open>last\<close>.

  \<^verbatim>\<open>totalChunks & 1\<close> and \<^verbatim>\<open>totalChunks >>= 1\<close> first take their operand to a signed
  32-bit integer (\<open>signed_take_bit 31\<close>); the shift is arithmetic.
\<close>

function merge_pairs ::
  "(u32 list \<Rightarrow> u32 list \<Rightarrow> bool \<Rightarrow> u32 list) \<Rightarrow> int \<Rightarrow> u32 list list \<Rightarrow> u32 list list" where
  "merge_pairs merge totalChunks cvStack =
     (if signed_take_bit 31 totalChunks AND 1 = 0 \<and> length cvStack \<ge> 2 then
        (case cvStack of
           right # left # rest \<Rightarrow>
             merge_pairs merge (drop_bit 1 (signed_take_bit 31 totalChunks))
               (merge left right False # rest)
         | _ \<Rightarrow> cvStack)
      else cvStack)"
  by pat_completeness auto
termination
  by (relation "measure (\<lambda>(merge, totalChunks, cvStack). length cvStack)") auto

text \<open>The loop \<^verbatim>\<open>while (cvStack.length > 1)\<close> that ends a multi-chunk run.\<close>

function final_merges ::
  "(u32 list \<Rightarrow> u32 list \<Rightarrow> bool \<Rightarrow> u32 list) \<Rightarrow> u32 list list \<Rightarrow> u32 list list" where
  "final_merges merge cvStack =
     (if length cvStack > 1 then
        (case cvStack of
           right # left # rest \<Rightarrow> final_merges merge (merge left right (length rest = 0) # rest)
         | _ \<Rightarrow> cvStack)
      else cvStack)"
  by pat_completeness auto
termination
  by (relation "measure (\<lambda>(merge, cvStack). length cvStack)") auto

text \<open>\<^verbatim>\<open>cvToBytes(cvStack[0], outputLen)\<close>; on an empty stack \<^verbatim>\<open>cvStack[0]\<close> is
  \<^verbatim>\<open>undefined\<close>, whose elements cannot be read.\<close>

definition stack_digest :: "u32 list list \<Rightarrow> nat \<Rightarrow> error + u8 list" where
  "stack_digest cvStack outputLen =
     (case cvStack of
        [] \<Rightarrow> if outputLen = 0 then Inr [] else Inl TypeError
      | _ \<Rightarrow> Inr (cvToBytes (last cvStack) outputLen))"

section \<open>hash\<close>

text \<open>The body of \<^verbatim>\<open>for (let c = 0; c < numChunks; c++)\<close> in \<^verbatim>\<open>hash\<close>.\<close>

definition chunk_step :: "layout \<Rightarrow> u8 list \<Rightarrow> nat \<Rightarrow> u32 \<Rightarrow> nat \<Rightarrow> u32 list list \<Rightarrow> u32 list list" where
  "chunk_step lay input numChunks flags c cvStack =
     (let chunkStart = c * CHUNK_LEN;
          chunkLen = min CHUNK_LEN (length input - chunkStart);
          isLastChunk = (c = numChunks - 1);
          cv = processChunk lay input chunkStart chunkLen c flags;
          cvStack = cv # cvStack
      in if \<not> isLastChunk
         then merge_pairs (\<lambda>left right isRoot. mergeParents left right flags isRoot) (int c + 1) cvStack
         else cvStack)"

definition hash :: "layout \<Rightarrow> u8 list \<Rightarrow> nat \<Rightarrow> error + u8 list" where
  "hash lay input outputLen =
     (let flags = 0 in
      if length input \<le> CHUNK_LEN then
        (let cv = block_loop (\<lambda>pos blockLen. load_block lay input pos blockLen)
                    (length input) 0 flags (CHUNK_END OR ROOT) 0 (block_count (length input)) IV
         in Inr (cvToBytes cv outputLen))
      else
        (let numChunks = ceil_div (length input) CHUNK_LEN;
             cvStack = fold (chunk_step lay input numChunks flags) [0..<numChunks] [];
             cvStack = final_merges (\<lambda>left right isRoot. mergeParents left right flags isRoot) cvStack
         in stack_digest cvStack outputLen))"

section \<open>keyedHash and deriveKey\<close>

text \<open>The key words: \<^verbatim>\<open>key[o] | (key[o+1] << 8) | (key[o+2] << 16) | (key[o+3] << 24)\<close>
  for \<open>o = 4 i\<close>.\<close>

definition key_words :: "u8 list \<Rightarrow> u32 list" where
  "key_words key = map (\<lambda>i. le_word key (i * 4)) [0..<8]"

text \<open>The parent compression \<^verbatim>\<open>keyedHash\<close> writes inline (lines 349 to 352 and 360 to 364).\<close>

definition keyed_parent :: "u32 list \<Rightarrow> u32 \<Rightarrow> u32 list \<Rightarrow> u32 list \<Rightarrow> bool \<Rightarrow> u32 list" where
  "keyed_parent keyWords flags left right isRoot =
     compress keyWords (parent_block left right) 0 BLOCK_LEN
       (flags OR PARENT OR (if isRoot then ROOT else 0))"

text \<open>The body of the chunk loop of \<^verbatim>\<open>keyedHash\<close> (lines 319 to 354): the merge loop runs
  after every chunk.\<close>

definition keyed_chunk_step :: "u32 list \<Rightarrow> u8 list \<Rightarrow> u32 \<Rightarrow> nat \<Rightarrow> u32 list list \<Rightarrow> u32 list list" where
  "keyed_chunk_step keyWords input flags c cvStack =
     (let chunkStart = c * CHUNK_LEN;
          chunkLen = min CHUNK_LEN (length input - chunkStart);
          cv = block_loop (\<lambda>pos blockLen. readBlock input (chunkStart + pos) blockLen)
                 chunkLen c flags CHUNK_END 0 (block_count chunkLen) keyWords;
          cvStack = cv # cvStack
      in merge_pairs (keyed_parent keyWords flags) (int c + 1) cvStack)"

definition keyedHash :: "u8 list \<Rightarrow> u8 list \<Rightarrow> nat \<Rightarrow> error + u8 list" where
  "keyedHash key input outputLen =
     (if length key \<noteq> 32 then Inl KeyMustBe32Bytes
      else
        (let keyWords = key_words key;
             flags = KEYED_HASH
         in if length input \<le> CHUNK_LEN then
              (let cv = block_loop (\<lambda>pos blockLen. readBlock input pos blockLen)
                          (length input) 0 flags (CHUNK_END OR ROOT) 0 (block_count (length input)) keyWords
               in Inr (cvToBytes cv outputLen))
            else
              (let numChunks = ceil_div (length input) CHUNK_LEN;
                   cvStack = fold (keyed_chunk_step keyWords input flags) [0..<numChunks] [];
                   cvStack = final_merges (keyed_parent keyWords flags) cvStack
               in stack_digest cvStack outputLen)))"

text \<open>\<^verbatim>\<open>deriveKey\<close>; \<open>contextBytes\<close> is what \<^verbatim>\<open>new TextEncoder().encode(context)\<close> returns,
  the UTF-8 encoding of the context string. \<open>context_cv\<close> is the value of \<^verbatim>\<open>contextCv\<close>
  after step 1.\<close>

definition context_cv :: "u8 list \<Rightarrow> u32 list" where
  "context_cv contextBytes =
     block_loop (\<lambda>pos blockLen. readBlock contextBytes pos blockLen)
       (length contextBytes) 0 DERIVE_KEY_CONTEXT (CHUNK_END OR ROOT) 0
       (block_count (length contextBytes)) IV"

definition deriveKey :: "u8 list \<Rightarrow> u8 list \<Rightarrow> nat \<Rightarrow> error + u8 list" where
  "deriveKey contextBytes keyMaterial outputLen =
     (let contextCv = context_cv contextBytes;
          materialCv = block_loop (\<lambda>pos blockLen. readBlock keyMaterial pos blockLen)
                         (length keyMaterial) 0 DERIVE_KEY_MATERIAL (CHUNK_END OR ROOT) 0
                         (block_count (length keyMaterial)) contextCv
      in Inr (cvToBytes materialCv outputLen))"

section \<open>The reference compression of the specification\<close>

text \<open>
  These definitions follow the words of the specification (sections 3 and 4.1), not the
  source: the state is an array of sixteen words, \<open>G\<close> mixes four of its entries, round
  \<open>r\<close> reads the message through \<open>\<sigma>\<^sub>r\<close>, the permutation \<open>\<sigma>\<close> applied \<open>r\<close> times to the
  identity, and the output is \<open>s\<^sub>i XOR s\<^sub>i\<^sub>+\<^sub>8\<close>. They are what \<open>compress\<close> is compared with.
\<close>

definition rotr :: "u32 \<Rightarrow> nat \<Rightarrow> u32" where
  "rotr x n = drop_bit n x OR push_bit (32 - n) x"

definition sigma :: "nat list" where
  "sigma = [2, 6, 3, 10, 7, 0, 4, 13, 1, 11, 12, 5, 9, 14, 15, 8]"

text \<open>Applying a permutation \<open>p\<close> to a list \<open>xs\<close> gives the list whose entry \<open>k\<close> is
  \<open>xs ! (p ! k)\<close>; \<open>sigma_r r\<close> is \<open>\<sigma>\<close> applied \<open>r\<close> times to the identity.\<close>

fun sigma_r :: "nat \<Rightarrow> nat \<Rightarrow> nat" where
  "sigma_r 0 k = k"
| "sigma_r (Suc r) k = sigma_r r (sigma ! k)"

definition G :: "u32 list \<Rightarrow> nat \<Rightarrow> nat \<Rightarrow> nat \<Rightarrow> nat \<Rightarrow> u32 \<Rightarrow> u32 \<Rightarrow> u32 list" where
  "G s a b c d mx my =
     (let s = s[a := s ! a + s ! b + mx];
          s = s[d := rotr (s ! d XOR s ! a) 16];
          s = s[c := s ! c + s ! d];
          s = s[b := rotr (s ! b XOR s ! c) 12];
          s = s[a := s ! a + s ! b + my];
          s = s[d := rotr (s ! d XOR s ! a) 8];
          s = s[c := s ! c + s ! d];
          s = s[b := rotr (s ! b XOR s ! c) 7]
      in s)"

definition spec_round :: "u32 list \<Rightarrow> nat \<Rightarrow> u32 list \<Rightarrow> u32 list" where
  "spec_round m r s =
     (let s = G s 0 4 8 12 (m ! sigma_r r 0) (m ! sigma_r r 1);
          s = G s 1 5 9 13 (m ! sigma_r r 2) (m ! sigma_r r 3);
          s = G s 2 6 10 14 (m ! sigma_r r 4) (m ! sigma_r r 5);
          s = G s 3 7 11 15 (m ! sigma_r r 6) (m ! sigma_r r 7);
          s = G s 0 5 10 15 (m ! sigma_r r 8) (m ! sigma_r r 9);
          s = G s 1 6 11 12 (m ! sigma_r r 10) (m ! sigma_r r 11);
          s = G s 2 7 8 13 (m ! sigma_r r 12) (m ! sigma_r r 13);
          s = G s 3 4 9 14 (m ! sigma_r r 14) (m ! sigma_r r 15)
      in s)"

definition spec_compress :: "u32 list \<Rightarrow> u32 list \<Rightarrow> nat \<Rightarrow> nat \<Rightarrow> u32 \<Rightarrow> u32 list" where
  "spec_compress cv m counter block_len flags =
     (let s = take 8 cv @ take 4 IV @
              [of_nat (counter mod 2 ^ 32), of_nat (counter div 2 ^ 32), of_nat block_len, flags];
          s = fold (spec_round m) [0..<7] s
      in map (\<lambda>i. s ! i XOR s ! (i + 8)) [0..<8])"

text \<open>The loops are unfolded by hand, one iteration at a time.\<close>

declare rounds.simps [simp del] read_words.simps [simp del] read_tail.simps [simp del]
  block_loop.simps [simp del] merge_pairs.simps [simp del] final_merges.simps [simp del]

section \<open>Notions used in the statements\<close>

text \<open>Byte \<open>j\<close> of the little-endian serialisation of the first eight words of a
  chaining value, and 0 from byte 32 on.\<close>

definition cv_byte :: "u32 list \<Rightarrow> nat \<Rightarrow> u8" where
  "cv_byte cv j = (if j < 32 then ucast (drop_bit (8 * (j mod 4)) (rd cv (j div 4))) else 0)"


text \<open>The chaining value each public function hands to \<^verbatim>\<open>cvToBytes\<close>.\<close>

definition hash_cv :: "layout \<Rightarrow> u8 list \<Rightarrow> u32 list" where
  "hash_cv lay input =
     (if length input \<le> CHUNK_LEN then
        block_loop (\<lambda>pos blockLen. load_block lay input pos blockLen)
          (length input) 0 0 (CHUNK_END OR ROOT) 0 (block_count (length input)) IV
      else hd (final_merges (\<lambda>left right isRoot. mergeParents left right 0 isRoot)
             (fold (chunk_step lay input (ceil_div (length input) CHUNK_LEN) 0)
                [0..<ceil_div (length input) CHUNK_LEN] [])))"

definition keyed_cv :: "u8 list \<Rightarrow> u8 list \<Rightarrow> u32 list" where
  "keyed_cv key input =
     (if length input \<le> CHUNK_LEN then
        block_loop (\<lambda>pos blockLen. readBlock input pos blockLen)
          (length input) 0 KEYED_HASH (CHUNK_END OR ROOT) 0 (block_count (length input)) (key_words key)
      else hd (final_merges (keyed_parent (key_words key) KEYED_HASH)
             (fold (keyed_chunk_step (key_words key) input KEYED_HASH)
                [0..<ceil_div (length input) CHUNK_LEN] [])))"

definition material_cv :: "u8 list \<Rightarrow> u8 list \<Rightarrow> u32 list" where
  "material_cv contextBytes keyMaterial =
     block_loop (\<lambda>pos blockLen. readBlock keyMaterial pos blockLen)
       (length keyMaterial) 0 DERIVE_KEY_MATERIAL (CHUNK_END OR ROOT) 0
       (block_count (length keyMaterial)) (context_cv contextBytes)"

text \<open>Between the sixteen locals of \<open>compress\<close> and the state array of the
  specification: a tuple as a list, a list of sixteen words as a tuple, and the message
  words round \<open>r\<close> reads.\<close>

definition lst :: "vars16 \<Rightarrow> u32 list" where
  "lst = (\<lambda>(s_0, s_1, s_2, s_3, s_4, s_5, s_6, s_7, s_8, s_9, s_10, s_11, s_12, s_13, s_14, s_15).
     [s_0, s_1, s_2, s_3, s_4, s_5, s_6, s_7, s_8, s_9, s_10, s_11, s_12, s_13, s_14, s_15])"

definition tup :: "u32 list \<Rightarrow> vars16" where
  "tup s = (s ! 0, s ! 1, s ! 2, s ! 3, s ! 4, s ! 5, s ! 6, s ! 7,
            s ! 8, s ! 9, s ! 10, s ! 11, s ! 12, s ! 13, s ! 14, s ! 15)"

definition msg :: "u32 list \<Rightarrow> nat \<Rightarrow> vars16" where
  "msg m r = (m ! sigma_r r 0, m ! sigma_r r 1, m ! sigma_r r 2, m ! sigma_r r 3,
              m ! sigma_r r 4, m ! sigma_r r 5, m ! sigma_r r 6, m ! sigma_r r 7,
              m ! sigma_r r 8, m ! sigma_r r 9, m ! sigma_r r 10, m ! sigma_r r 11,
              m ! sigma_r r 12, m ! sigma_r r 13, m ! sigma_r r 14, m ! sigma_r r 15)"

section \<open>compress and the reference compression\<close>

lemma rotr_fold:
  "drop_bit 16 x OR push_bit 16 x = rotr x 16"
  "drop_bit 12 x OR push_bit 20 x = rotr x 12"
  "drop_bit 8 x OR push_bit 24 x = rotr x 8"
  "drop_bit 7 x OR push_bit 25 x = rotr x 7"
  by (simp_all add: rotr_def)

lemma upd16:
  "[a0,a1,a2,a3,a4,a5,a6,a7,a8,a9,a10,a11,a12,a13,a14,a15][0 := v] = [v,a1,a2,a3,a4,a5,a6,a7,a8,a9,a10,a11,a12,a13,a14,a15]"
  "[a0,a1,a2,a3,a4,a5,a6,a7,a8,a9,a10,a11,a12,a13,a14,a15][1 := v] = [a0,v,a2,a3,a4,a5,a6,a7,a8,a9,a10,a11,a12,a13,a14,a15]"
  "[a0,a1,a2,a3,a4,a5,a6,a7,a8,a9,a10,a11,a12,a13,a14,a15][2 := v] = [a0,a1,v,a3,a4,a5,a6,a7,a8,a9,a10,a11,a12,a13,a14,a15]"
  "[a0,a1,a2,a3,a4,a5,a6,a7,a8,a9,a10,a11,a12,a13,a14,a15][3 := v] = [a0,a1,a2,v,a4,a5,a6,a7,a8,a9,a10,a11,a12,a13,a14,a15]"
  "[a0,a1,a2,a3,a4,a5,a6,a7,a8,a9,a10,a11,a12,a13,a14,a15][4 := v] = [a0,a1,a2,a3,v,a5,a6,a7,a8,a9,a10,a11,a12,a13,a14,a15]"
  "[a0,a1,a2,a3,a4,a5,a6,a7,a8,a9,a10,a11,a12,a13,a14,a15][5 := v] = [a0,a1,a2,a3,a4,v,a6,a7,a8,a9,a10,a11,a12,a13,a14,a15]"
  "[a0,a1,a2,a3,a4,a5,a6,a7,a8,a9,a10,a11,a12,a13,a14,a15][6 := v] = [a0,a1,a2,a3,a4,a5,v,a7,a8,a9,a10,a11,a12,a13,a14,a15]"
  "[a0,a1,a2,a3,a4,a5,a6,a7,a8,a9,a10,a11,a12,a13,a14,a15][7 := v] = [a0,a1,a2,a3,a4,a5,a6,v,a8,a9,a10,a11,a12,a13,a14,a15]"
  "[a0,a1,a2,a3,a4,a5,a6,a7,a8,a9,a10,a11,a12,a13,a14,a15][8 := v] = [a0,a1,a2,a3,a4,a5,a6,a7,v,a9,a10,a11,a12,a13,a14,a15]"
  "[a0,a1,a2,a3,a4,a5,a6,a7,a8,a9,a10,a11,a12,a13,a14,a15][9 := v] = [a0,a1,a2,a3,a4,a5,a6,a7,a8,v,a10,a11,a12,a13,a14,a15]"
  "[a0,a1,a2,a3,a4,a5,a6,a7,a8,a9,a10,a11,a12,a13,a14,a15][10 := v] = [a0,a1,a2,a3,a4,a5,a6,a7,a8,a9,v,a11,a12,a13,a14,a15]"
  "[a0,a1,a2,a3,a4,a5,a6,a7,a8,a9,a10,a11,a12,a13,a14,a15][11 := v] = [a0,a1,a2,a3,a4,a5,a6,a7,a8,a9,a10,v,a12,a13,a14,a15]"
  "[a0,a1,a2,a3,a4,a5,a6,a7,a8,a9,a10,a11,a12,a13,a14,a15][12 := v] = [a0,a1,a2,a3,a4,a5,a6,a7,a8,a9,a10,a11,v,a13,a14,a15]"
  "[a0,a1,a2,a3,a4,a5,a6,a7,a8,a9,a10,a11,a12,a13,a14,a15][13 := v] = [a0,a1,a2,a3,a4,a5,a6,a7,a8,a9,a10,a11,a12,v,a14,a15]"
  "[a0,a1,a2,a3,a4,a5,a6,a7,a8,a9,a10,a11,a12,a13,a14,a15][14 := v] = [a0,a1,a2,a3,a4,a5,a6,a7,a8,a9,a10,a11,a12,a13,v,a15]"
  "[a0,a1,a2,a3,a4,a5,a6,a7,a8,a9,a10,a11,a12,a13,a14,a15][15 := v] = [a0,a1,a2,a3,a4,a5,a6,a7,a8,a9,a10,a11,a12,a13,a14,v]"
  by (simp_all add: eval_nat_numeral)

lemma nth16:
  "[a0,a1,a2,a3,a4,a5,a6,a7,a8,a9,a10,a11,a12,a13,a14,a15] ! 0 = a0"
  "[a0,a1,a2,a3,a4,a5,a6,a7,a8,a9,a10,a11,a12,a13,a14,a15] ! 1 = a1"
  "[a0,a1,a2,a3,a4,a5,a6,a7,a8,a9,a10,a11,a12,a13,a14,a15] ! 2 = a2"
  "[a0,a1,a2,a3,a4,a5,a6,a7,a8,a9,a10,a11,a12,a13,a14,a15] ! 3 = a3"
  "[a0,a1,a2,a3,a4,a5,a6,a7,a8,a9,a10,a11,a12,a13,a14,a15] ! 4 = a4"
  "[a0,a1,a2,a3,a4,a5,a6,a7,a8,a9,a10,a11,a12,a13,a14,a15] ! 5 = a5"
  "[a0,a1,a2,a3,a4,a5,a6,a7,a8,a9,a10,a11,a12,a13,a14,a15] ! 6 = a6"
  "[a0,a1,a2,a3,a4,a5,a6,a7,a8,a9,a10,a11,a12,a13,a14,a15] ! 7 = a7"
  "[a0,a1,a2,a3,a4,a5,a6,a7,a8,a9,a10,a11,a12,a13,a14,a15] ! 8 = a8"
  "[a0,a1,a2,a3,a4,a5,a6,a7,a8,a9,a10,a11,a12,a13,a14,a15] ! 9 = a9"
  "[a0,a1,a2,a3,a4,a5,a6,a7,a8,a9,a10,a11,a12,a13,a14,a15] ! 10 = a10"
  "[a0,a1,a2,a3,a4,a5,a6,a7,a8,a9,a10,a11,a12,a13,a14,a15] ! 11 = a11"
  "[a0,a1,a2,a3,a4,a5,a6,a7,a8,a9,a10,a11,a12,a13,a14,a15] ! 12 = a12"
  "[a0,a1,a2,a3,a4,a5,a6,a7,a8,a9,a10,a11,a12,a13,a14,a15] ! 13 = a13"
  "[a0,a1,a2,a3,a4,a5,a6,a7,a8,a9,a10,a11,a12,a13,a14,a15] ! 14 = a14"
  "[a0,a1,a2,a3,a4,a5,a6,a7,a8,a9,a10,a11,a12,a13,a14,a15] ! 15 = a15"
  by simp_all

lemma spec_round_list:
  "spec_round m r [s_0, s_1, s_2, s_3, s_4, s_5, s_6, s_7, s_8, s_9, s_10, s_11, s_12, s_13, s_14, s_15] =
   lst (mix (s_0, s_1, s_2, s_3, s_4, s_5, s_6, s_7, s_8, s_9, s_10, s_11, s_12, s_13, s_14, s_15) (msg m r))"
  apply (simp only: mix_def msg_def prod.case)
  apply (simp only: rotr_fold)
  apply (simp only: Let_def cong: let_weak_cong)
  apply (simp only: spec_round_def)
  apply (simp only: Let_def G_def upd16 nth16 cong: let_weak_cong)
  apply (simp only: lst_def prod.case)
  done


lemma list16:
  assumes "length (s :: 'a list) = 16"
  obtains a0 a1 a2 a3 a4 a5 a6 a7 a8 a9 a10 a11 a12 a13 a14 a15
  where "s = [a0,a1,a2,a3,a4,a5,a6,a7,a8,a9,a10,a11,a12,a13,a14,a15]"
  using assms by (auto simp: eval_nat_numeral length_Suc_conv)

lemma tup_lst: "tup (lst t) = t"
  by (simp add: tup_def lst_def split: prod.splits)

lemma length_lst: "length (lst t) = 16"
  by (simp add: lst_def split: prod.splits)

lemma lst_tup: "length s = 16 \<Longrightarrow> lst (tup s) = s"
  by (erule list16) (simp add: tup_def lst_def)

lemma spec_round_tup:
  assumes "length s = 16"
  shows "spec_round m r s = lst (mix (tup s) (msg m r))"
proof -
  obtain a0 a1 a2 a3 a4 a5 a6 a7 a8 a9 a10 a11 a12 a13 a14 a15
    where s: "s = [a0,a1,a2,a3,a4,a5,a6,a7,a8,a9,a10,a11,a12,a13,a14,a15]"
    using assms by (rule list16)
  have "tup s = (a0,a1,a2,a3,a4,a5,a6,a7,a8,a9,a10,a11,a12,a13,a14,a15)"
    by (simp add: s tup_def)
  then show ?thesis
    by (simp only: s spec_round_list)
qed

lemma sigma_nth:
  "sigma ! 0 = 2" "sigma ! 1 = 6" "sigma ! 2 = 3" "sigma ! 3 = 10" "sigma ! 4 = 7" "sigma ! 5 = 0"
  "sigma ! 6 = 4" "sigma ! 7 = 13" "sigma ! 8 = 1" "sigma ! 9 = 11" "sigma ! 10 = 12" "sigma ! 11 = 5"
  "sigma ! 12 = 9" "sigma ! 13 = 14" "sigma ! 14 = 15" "sigma ! 15 = 8" "sigma ! Suc 0 = 6"
  by (simp_all add: sigma_def)

lemma permute_msg: "permute (msg m r) = msg m (Suc r)"
  by (simp add: permute_def msg_def sigma_nth)

lemma rounds_unroll:
  "rounds 0 s m =
     mix (mix (mix (mix (mix (mix (mix s m) (permute m)) (permute (permute m)))
       (permute (permute (permute m)))) (permute (permute (permute (permute m)))))
       (permute (permute (permute (permute (permute m))))))
       (permute (permute (permute (permute (permute (permute m))))))"
  by (simp add: rounds.simps)

lemma fold_upt7: "fold f [0..<7] s = f 6 (f 5 (f 4 (f 3 (f 2 (f 1 (f 0 s))))))"
  by (simp add: upt_rec eval_nat_numeral)

lemma of_nat_mod_u32:
  "(of_nat (n mod 2 ^ 32) :: u32) = of_nat n" "(of_nat (n mod 4294967296) :: u32) = of_nat n"
  by (simp_all add: word_of_nat_eq_iff take_bit_eq_mod)

lemma compress_output:
  "length s = 16 \<Longrightarrow>
   (case tup s of
      (s_0, s_1, s_2, s_3, s_4, s_5, s_6, s_7, s_8, s_9, s_10, s_11, s_12, s_13, s_14, s_15) \<Rightarrow>
        [s_0 XOR s_8, s_1 XOR s_9, s_2 XOR s_10, s_3 XOR s_11,
         s_4 XOR s_12, s_5 XOR s_13, s_6 XOR s_14, s_7 XOR s_15]) =
   map (\<lambda>i. s ! i XOR s ! (i + 8)) [0..<8]"
  by (simp add: tup_def upt_rec eval_nat_numeral)

section \<open>The digest extractor\<close>

lemma ucast_and_ff: "(ucast ((w::u32) AND 0xff) :: u8) = ucast w"
proof -
  have m: "(0xff::u32) = mask 8" by (simp add: mask_eq_exp_minus_1)
  show ?thesis unfolding m by (rule bit_word_eqI) (auto simp: bit_simps)
qed

lemma cvToBytes_body_nth:
  assumes len: "length r = L" and k: "k < 8"
    and inv: "\<forall>j<L. r ! j = (if j < 4 * k then cv_byte cv j else 0)"
  shows "length (cvToBytes_body cv L k r) = L \<and>
         (\<forall>j<L. cvToBytes_body cv L k r ! j = (if j < 4 * Suc k then cv_byte cv j else 0))"
proof
  show "length (cvToBytes_body cv L k r) = L" by (simp add: cvToBytes_body_def Let_def len)
  show "\<forall>j<L. cvToBytes_body cv L k r ! j = (if j < 4 * Suc k then cv_byte cv j else 0)"
  proof (intro allI impI)
    fix j assume jL: "j < L"
    have dm: "(k * 4 + 1) mod 4 = 1" "(k * 4 + 1) div 4 = k" "(k * 4 + 2) mod 4 = 2" "(k * 4 + 2) div 4 = k"
      "(k * 4 + 3) mod 4 = 3" "(k * 4 + 3) div 4 = k"
      by presburger+
    have b0: "cv_byte cv (k * 4) = ucast (rd cv k)" using k by (simp add: cv_byte_def)
    have b1: "cv_byte cv (k * 4 + 1) = ucast (drop_bit 8 (rd cv k))" using k
      by (simp only: cv_byte_def dm) simp
    have b2: "cv_byte cv (k * 4 + 2) = ucast (drop_bit 16 (rd cv k))" using k
      by (simp only: cv_byte_def dm) simp
    have b3: "cv_byte cv (k * 4 + 3) = ucast (drop_bit 24 (rd cv k))" using k
      by (simp only: cv_byte_def dm) simp
    have "j < 4 * k \<or> j = k * 4 \<or> j = k * 4 + 1 \<or> j = k * 4 + 2 \<or> j = k * 4 + 3 \<or> j \<ge> 4 * Suc k"
      by arith
    then consider "j < 4 * k" | "j = k * 4" | "j = k * 4 + 1" | "j = k * 4 + 2" | "j = k * 4 + 3" | "j \<ge> 4 * Suc k"
      by blast
    then show "cvToBytes_body cv L k r ! j = (if j < 4 * Suc k then cv_byte cv j else 0)"
    proof cases
      case 1 then show ?thesis using jL inv len
        by (simp add: cvToBytes_body_def Let_def)
    next
      case 2 then show ?thesis using jL inv len b0
        by (simp add: cvToBytes_body_def Let_def ucast_and_ff)
    next
      case 3 then show ?thesis using jL inv len b1
        by (simp add: cvToBytes_body_def Let_def ucast_and_ff)
    next
      case 4 then show ?thesis using jL inv len b2
        by (simp add: cvToBytes_body_def Let_def ucast_and_ff)
    next
      case 5 then show ?thesis using jL inv len b3
        by (simp add: cvToBytes_body_def Let_def ucast_and_ff)
    next
      case 6 then show ?thesis using jL inv len
        by (simp add: cvToBytes_body_def Let_def)
    qed
  qed
qed

lemma cvToBytes_fold:
  "k \<le> 8 \<Longrightarrow>
   length (fold (cvToBytes_body cv L) [0..<k] (replicate L 0)) = L \<and>
   (\<forall>j<L. fold (cvToBytes_body cv L) [0..<k] (replicate L 0) ! j =
      (if j < 4 * k then cv_byte cv j else 0))"
proof (induction k)
  case 0
  then show ?case by simp
next
  case (Suc k)
  then have k: "k < 8" and IH: "length (fold (cvToBytes_body cv L) [0..<k] (replicate L 0)) = L"
    "\<forall>j<L. fold (cvToBytes_body cv L) [0..<k] (replicate L 0) ! j = (if j < 4 * k then cv_byte cv j else 0)"
    by simp_all
  show ?case
    using cvToBytes_body_nth[OF IH(1) k IH(2)] by simp
qed

lemma length_cvToBytes: "length (cvToBytes cv L) = L"
  using cvToBytes_fold[of "min 8 (ceil_div L 4)" cv L] by (simp add: cvToBytes_def)

lemma nth_cvToBytes:
  assumes j: "j < L"
  shows "cvToBytes cv L ! j = cv_byte cv j"
proof -
  have *: "cvToBytes cv L ! j = (if j < 4 * min 8 (ceil_div L 4) then cv_byte cv j else 0)"
    using cvToBytes_fold[of "min 8 (ceil_div L 4)" cv L] j by (simp add: cvToBytes_def)
  have "j < 32 \<Longrightarrow> j < 4 * min 8 (ceil_div L 4)"
    using j by (auto simp: ceil_div_def)
  then show ?thesis
    unfolding * by (auto simp: cv_byte_def)
qed

lemma cvToBytes_take: "L \<le> M \<Longrightarrow> cvToBytes cv L = take L (cvToBytes cv M)"
  by (rule nth_equalityI) (simp_all add: length_cvToBytes nth_cvToBytes)

lemma cvToBytes_pad: "32 \<le> L \<Longrightarrow> cvToBytes cv L = cvToBytes cv 32 @ replicate (L - 32) 0"
  by (rule nth_equalityI) (auto simp: length_cvToBytes nth_cvToBytes nth_append cv_byte_def)

section \<open>The shape of the public functions\<close>

lemma merge_pairs_nonempty: "cvStack \<noteq> [] \<Longrightarrow> merge_pairs merge t cvStack \<noteq> []"
proof (induction merge t cvStack rule: merge_pairs.induct)
  case (1 merge totalChunks cvStack)
  show ?case
  proof (cases cvStack)
    case Nil
    with 1 show ?thesis by simp
  next
    case (Cons right tl)
    show ?thesis
    proof (cases tl)
      case Nil
      with Cons show ?thesis by (subst merge_pairs.simps) simp
    next
      case (Cons left rest)
      with \<open>cvStack = right # tl\<close> 1 show ?thesis
        by (subst merge_pairs.simps) simp
    qed
  qed
qed

lemma final_merges_length: "cvStack \<noteq> [] \<Longrightarrow> length (final_merges merge cvStack) = 1"
proof (induction merge cvStack rule: final_merges.induct)
  case (1 merge cvStack)
  show ?case
  proof (cases cvStack)
    case Nil
    with 1 show ?thesis by simp
  next
    case (Cons right tl)
    show ?thesis
    proof (cases tl)
      case Nil
      with Cons show ?thesis by (subst final_merges.simps) simp
    next
      case (Cons left rest)
      with \<open>cvStack = right # tl\<close> 1 show ?thesis
        by (subst final_merges.simps) simp
    qed
  qed
qed

lemma stack_digest_single: "length cvStack = 1 \<Longrightarrow> stack_digest cvStack L = Inr (cvToBytes (hd cvStack) L)"
  by (cases cvStack) (auto simp: stack_digest_def)

lemma chunk_step_nonempty: "chunk_step lay input n flags c cvStack \<noteq> []"
  by (simp add: chunk_step_def Let_def merge_pairs_nonempty)

lemma keyed_chunk_step_nonempty: "keyed_chunk_step kw input flags c cvStack \<noteq> []"
  by (simp add: keyed_chunk_step_def Let_def merge_pairs_nonempty)

lemma fold_nonempty:
  "(\<And>c st. f c st \<noteq> []) \<Longrightarrow> xs \<noteq> [] \<or> st \<noteq> [] \<Longrightarrow> fold f xs st \<noteq> ([] :: 'a list)"
  by (induction xs arbitrary: st) auto

lemma ceil_div_chunks: "CHUNK_LEN < n \<Longrightarrow> 2 \<le> ceil_div n CHUNK_LEN"
  by (simp add: ceil_div_def CHUNK_LEN_def)

lemma hash_eq: "hash lay input L = Inr (cvToBytes (hash_cv lay input) L)"
proof (cases "length input \<le> CHUNK_LEN")
  case True
  then show ?thesis by (simp add: hash_def hash_cv_def)
next
  case False
  then have "[0..<ceil_div (length input) CHUNK_LEN] \<noteq> []"
    using ceil_div_chunks[of "length input"] by simp
  then have "fold (chunk_step lay input (ceil_div (length input) CHUNK_LEN) 0)
                [0..<ceil_div (length input) CHUNK_LEN] [] \<noteq> []"
    by (intro fold_nonempty chunk_step_nonempty) simp
  then show ?thesis
    using False by (simp add: hash_def hash_cv_def Let_def stack_digest_single final_merges_length)
qed

lemma keyedHash_eq:
  "keyedHash key input L =
     (if length key \<noteq> 32 then Inl KeyMustBe32Bytes else Inr (cvToBytes (keyed_cv key input) L))"
proof (cases "length input \<le> CHUNK_LEN")
  case True
  then show ?thesis by (simp add: keyedHash_def keyed_cv_def Let_def)
next
  case False
  then have "[0..<ceil_div (length input) CHUNK_LEN] \<noteq> []"
    using ceil_div_chunks[of "length input"] by simp
  then have "fold (keyed_chunk_step (key_words key) input KEYED_HASH)
                [0..<ceil_div (length input) CHUNK_LEN] [] \<noteq> []"
    by (intro fold_nonempty keyed_chunk_step_nonempty) simp
  then show ?thesis
    using False by (simp add: keyedHash_def keyed_cv_def Let_def stack_digest_single final_merges_length)
qed

lemma deriveKey_eq: "deriveKey c m L = Inr (cvToBytes (material_cv c m) L)"
  by (simp add: deriveKey_def material_cv_def)

section \<open>The claims\<close>

text \<open>
  Claim C2. \<open>compress\<close>, which permutes its sixteen message locals between rounds, equals
  the single-block compression of the specification for every 8-word chaining value,
  16-word message, counter, block length and flags: seven rounds, round \<open>r\<close> reading
  \<open>m[\<sigma>\<^sub>r(k)]\<close>, \<open>G\<close> with the column and diagonal wiring and the rotations 16, 12, 8, 7,
  and the output \<open>s\<^sub>i XOR s\<^sub>i\<^sub>+\<^sub>8\<close>.
\<close>

theorem compress_refines_spec:
  assumes cv: "length cv = 8" and m: "length m = 16"
  shows "compress cv m counter blockLen flags = spec_compress cv m counter blockLen flags"
proof -
  define s0 where "s0 = take 8 cv @ take 4 IV @
     [of_nat (counter mod 2 ^ 32), of_nat (counter div 2 ^ 32), of_nat blockLen, flags]"
  have len0: "length s0 = 16" by (simp add: s0_def cv IV_def)
  have t0: "tup s0 = (rd cv 0, rd cv 1, rd cv 2, rd cv 3, rd cv 4, rd cv 5, rd cv 6, rd cv 7,
         0x6a09e667, 0xbb67ae85, 0x3c6ef372, 0xa54ff53a,
         of_nat counter, of_nat (counter div 0x100000000), of_nat blockLen, flags)"
    using cv by (simp add: tup_def s0_def rd_def nth_append IV_def of_nat_mod_u32)
  have m0: "(rd m 0, rd m 1, rd m 2, rd m 3, rd m 4, rd m 5, rd m 6, rd m 7,
         rd m 8, rd m 9, rd m 10, rd m 11, rd m 12, rd m 13, rd m 14, rd m 15) = msg m 0"
    using m by (simp add: msg_def rd_def)
  define s1 where "s1 = spec_round m 0 s0"
  define s2 where "s2 = spec_round m 1 s1"
  define s3 where "s3 = spec_round m 2 s2"
  define s4 where "s4 = spec_round m 3 s3"
  define s5 where "s5 = spec_round m 4 s4"
  define s6 where "s6 = spec_round m 5 s5"
  define s7 where "s7 = spec_round m 6 s6"
  have r1: "s1 = lst (mix (tup s0) (msg m 0))" unfolding s1_def by (rule spec_round_tup[OF len0])
  have l1: "length s1 = 16" by (simp add: r1 length_lst)
  have r2: "s2 = lst (mix (tup s1) (msg m 1))" unfolding s2_def by (rule spec_round_tup[OF l1])
  have l2: "length s2 = 16" by (simp add: r2 length_lst)
  have r3: "s3 = lst (mix (tup s2) (msg m 2))" unfolding s3_def by (rule spec_round_tup[OF l2])
  have l3: "length s3 = 16" by (simp add: r3 length_lst)
  have r4: "s4 = lst (mix (tup s3) (msg m 3))" unfolding s4_def by (rule spec_round_tup[OF l3])
  have l4: "length s4 = 16" by (simp add: r4 length_lst)
  have r5: "s5 = lst (mix (tup s4) (msg m 4))" unfolding s5_def by (rule spec_round_tup[OF l4])
  have l5: "length s5 = 16" by (simp add: r5 length_lst)
  have r6: "s6 = lst (mix (tup s5) (msg m 5))" unfolding s6_def by (rule spec_round_tup[OF l5])
  have l6: "length s6 = 16" by (simp add: r6 length_lst)
  have r7: "s7 = lst (mix (tup s6) (msg m 6))" unfolding s7_def by (rule spec_round_tup[OF l6])
  have l7: "length s7 = 16" by (simp add: r7 length_lst)
  have perm: "permute (msg m 0) = msg m 1" "permute (msg m 1) = msg m 2" "permute (msg m 2) = msg m 3"
    "permute (msg m 3) = msg m 4" "permute (msg m 4) = msg m 5" "permute (msg m 5) = msg m 6"
    by (simp_all add: permute_msg eval_nat_numeral)
  have "rounds 0 (tup s0) (msg m 0) = tup s7"
    by (simp only: rounds_unroll perm r1 r2 r3 r4 r5 r6 r7 tup_lst)
  then have L: "compress cv m counter blockLen flags =
      (case tup s7 of
        (s_0, s_1, s_2, s_3, s_4, s_5, s_6, s_7, s_8, s_9, s_10, s_11, s_12, s_13, s_14, s_15) \<Rightarrow>
        [s_0 XOR s_8, s_1 XOR s_9, s_2 XOR s_10, s_3 XOR s_11,
         s_4 XOR s_12, s_5 XOR s_13, s_6 XOR s_14, s_7 XOR s_15])"
    by (simp only: compress_def t0[symmetric] m0)
  have "fold (spec_round m) [0..<7] s0 = s7"
    by (simp only: fold_upt7 s1_def s2_def s3_def s4_def s5_def s6_def s7_def)
  then have R: "spec_compress cv m counter blockLen flags = map (\<lambda>i. s7 ! i XOR s7 ! (i + 8)) [0..<8]"
    by (simp add: spec_compress_def s0_def Let_def)
  show ?thesis
    by (simp only: L R compress_output[OF l7])
qed

theorem compress_refines_spec_witness:
  "length IV = 8 \<and> length (replicate 16 (0::u32)) = 16 \<and>
   compress IV (replicate 16 0) 0 0 11 = spec_compress IV (replicate 16 0) 0 0 11"
proof -
  have a: "length IV = 8" by (simp add: IV_def)
  have b: "length (replicate 16 (0::u32)) = 16" by simp
  show ?thesis using a b compress_refines_spec[OF a b, of 0 0 11] by simp
qed

text \<open>
  Claim C5 says that an output length of 0 or above 32 is rejected with an error. The
  code has no such check: \<open>hash\<close> of the empty input returns the empty buffer for
  length 0 and a buffer for length 33, and so do \<open>keyedHash\<close> and \<open>deriveKey\<close>.
\<close>
theorem output_length_not_rejected:
  "hash \<lparr>IS_LITTLE_ENDIAN = True, byteOffset = 0\<rparr> [] 0 = Inr [] \<and>
   \<not> isl (hash \<lparr>IS_LITTLE_ENDIAN = True, byteOffset = 0\<rparr> [] 33) \<and>
   \<not> isl (keyedHash (replicate 32 0) [] 33) \<and> \<not> isl (deriveKey [] [] 0)"
  by (simp add: hash_eq keyedHash_eq deriveKey_eq) (simp add: cvToBytes_def ceil_div_def)

text \<open>
  Claim C5 as amended: no output length is rejected. For every \<open>L\<close>, \<open>hash\<close> and
  \<open>deriveKey\<close> return a buffer of exactly \<open>L\<close> bytes, and so does \<open>keyedHash\<close> unless the
  key is not 32 bytes long.
\<close>

theorem output_length_any:
  "(\<exists>d. length d = L \<and> hash lay X L = Inr d) \<and>
   (\<exists>d. length d = L \<and> deriveKey ctx km L = Inr d) \<and>
   (\<exists>d. length d = L \<and>
        keyedHash key X L = (if length key = 32 then Inr d else Inl KeyMustBe32Bytes))"
proof (intro conjI)
  show "\<exists>d. length d = L \<and> hash lay X L = Inr d"
    by (simp add: hash_eq length_cvToBytes)
  show "\<exists>d. length d = L \<and> deriveKey ctx km L = Inr d"
    by (simp add: deriveKey_eq length_cvToBytes)
  show "\<exists>d. length d = L \<and>
        keyedHash key X L = (if length key = 32 then Inr d else Inl KeyMustBe32Bytes)"
    unfolding keyedHash_eq by (rule exI[of _ "cvToBytes (keyed_cv key X) L"]) (simp add: length_cvToBytes)
qed

text \<open>
  Claim C6. For every input \<open>X\<close> and every output length \<open>L\<close> from 1 to 64,
  \<open>hash X L\<close> returns the first \<open>L\<close> bytes of what \<open>hash X 64\<close> returns (whatever the
  layout of the input in memory).
\<close>
theorem hash_prefix_of_64:
  assumes "1 \<le> L" and "L \<le> 64"
  shows "\<exists>d. hash lay X 64 = Inr d \<and> hash lay X L = Inr (take L d)"
  using assms(2) by (simp add: hash_eq cvToBytes_take[of L 64])

theorem hash_prefix_of_64_witness:
  "(1::nat) \<le> 5 \<and> (5::nat) \<le> 64 \<and>
   (\<exists>d. hash \<lparr>IS_LITTLE_ENDIAN = True, byteOffset = 0\<rparr> [] 64 = Inr d \<and>
        hash \<lparr>IS_LITTLE_ENDIAN = True, byteOffset = 0\<rparr> [] 5 = Inr (take 5 d))"
  using hash_prefix_of_64[of 5 "\<lparr>IS_LITTLE_ENDIAN = True, byteOffset = 0\<rparr>" "[]"] by simp

text \<open>
  Claim C10. For every chaining value and every output length \<open>L > 32\<close>, \<open>cvToBytes\<close>
  returns \<open>L\<close> bytes of which those at indices 32 to \<open>L - 1\<close> are zero; so \<open>hash\<close>,
  \<open>deriveKey\<close> and \<open>keyedHash\<close> (where the key is accepted) return their 32-byte digest
  followed by \<open>L - 32\<close> zero bytes.
\<close>
theorem cvToBytes_zero_padding:
  assumes "32 < L"
  shows "length (cvToBytes cv L) = L \<and>
         (\<forall>j. 32 \<le> j \<and> j < L \<longrightarrow> cvToBytes cv L ! j = 0) \<and>
         (\<exists>d. length d = 32 \<and> hash lay X 32 = Inr d \<and> hash lay X L = Inr (d @ replicate (L - 32) 0)) \<and>
         (\<exists>d. length d = 32 \<and> deriveKey ctx km 32 = Inr d \<and>
              deriveKey ctx km L = Inr (d @ replicate (L - 32) 0)) \<and>
         (\<exists>d. length d = 32 \<and>
              keyedHash key X 32 = (if length key = 32 then Inr d else Inl KeyMustBe32Bytes) \<and>
              keyedHash key X L =
                (if length key = 32 then Inr (d @ replicate (L - 32) 0) else Inl KeyMustBe32Bytes))"
proof (intro conjI)
  show "length (cvToBytes cv L) = L" by (rule length_cvToBytes)
  show "\<forall>j. 32 \<le> j \<and> j < L \<longrightarrow> cvToBytes cv L ! j = 0"
    by (simp add: nth_cvToBytes cv_byte_def)
  have pad: "\<And>c. cvToBytes c L = cvToBytes c 32 @ replicate (L - 32) 0"
    by (rule cvToBytes_pad) (use assms in simp)
  show "\<exists>d. length d = 32 \<and> hash lay X 32 = Inr d \<and> hash lay X L = Inr (d @ replicate (L - 32) 0)"
    unfolding hash_eq by (rule exI[of _ "cvToBytes (hash_cv lay X) 32"]) (simp add: length_cvToBytes pad)
  show "\<exists>d. length d = 32 \<and> deriveKey ctx km 32 = Inr d \<and>
              deriveKey ctx km L = Inr (d @ replicate (L - 32) 0)"
    unfolding deriveKey_eq by (rule exI[of _ "cvToBytes (material_cv ctx km) 32"]) (simp add: length_cvToBytes pad)
  show "\<exists>d. length d = 32 \<and>
              keyedHash key X 32 = (if length key = 32 then Inr d else Inl KeyMustBe32Bytes) \<and>
              keyedHash key X L =
                (if length key = 32 then Inr (d @ replicate (L - 32) 0) else Inl KeyMustBe32Bytes)"
    unfolding keyedHash_eq by (rule exI[of _ "cvToBytes (keyed_cv key X) 32"]) (simp add: length_cvToBytes pad)
qed

theorem cvToBytes_zero_padding_witness:
  "(32::nat) < 40 \<and> length (cvToBytes IV 40) = 40 \<and> cvToBytes IV 40 ! 32 = 0 \<and> cvToBytes IV 40 ! 39 = 0"
proof -
  have h: "(32::nat) < 40" by simp
  show ?thesis
    using cvToBytes_zero_padding[OF h, of IV "\<lparr>IS_LITTLE_ENDIAN = True, byteOffset = 0\<rparr>" "[]" "[]" "[]" "[]"]
    by simp
qed

end
